theory Spec2Isabelle
  imports Complex_Main
begin

section \<open>Renderer.js: the render-scheduled client step\<close>

text \<open>
  The embedding follows \<^verbatim>\<open>src/render/Renderer.js\<close>. JavaScript Numbers are read as
  exact reals: rounding, NaN and the infinities of IEEE doubles are not modelled.

  The mutable fields the code touches are collected in one record: \<^verbatim>\<open>doReset\<close> of the
  Renderer, and \<^verbatim>\<open>options\<close>, \<^verbatim>\<open>lastStepTime\<close> and \<^verbatim>\<open>correction\<close> of the client engine. The two
  collaborators are observed through what they receive: \<^verbatim>\<open>stepCalls\<close> lists the
  invocations of \<^verbatim>\<open>clientEngine.step\<close> in order, and \<^verbatim>\<open>traceSink\<close> holds the messages
  handed to \<^verbatim>\<open>clientEngine.gameEngine.trace\<close>, or \<open>None\<close> when that object is absent
  (\<^verbatim>\<open>undefined\<close>), in which case calling its \<^verbatim>\<open>trace\<close> method raises a TypeError.
\<close>

definition TIME_RESET_THRESHOLD :: real where
  "TIME_RESET_THRESHOLD = 100"

record options =
  scheduler :: string
  stepPeriod :: real

text \<open>A call \<^verbatim>\<open>step(time, dt, flag)\<close>; the third argument is \<open>None\<close> when the call omits it.\<close>

datatype step_call = StepCall (callTime: real) (callDt: real) (callFlag: "bool option")

text \<open>The payload of each template string passed to \<^verbatim>\<open>trace.trace\<close>, tagged by its banner.\<close>

datatype trace_msg =
    isResetting: Resetting real real
  | isDrawingExtra: DrawingExtra real real real real
  | isDrawingNoStep: DrawingNoStep real real real real
  | isDrawing: Drawing real real real real
  | isDone: Done real real real real

datatype error = TypeError | StepFailure

datatype outcome = Returned | Threw error

record world =
  doReset :: bool
  options :: options
  lastStepTime :: real
  correction :: real
  stepCalls :: "step_call list"
  traceSink :: "trace_msg list option"

text \<open>
  \<^verbatim>\<open>this.clientEngine.gameEngine.trace.trace(msg)\<close>: appends to the sink, or throws when
  the sink is absent. A throw leaves every earlier assignment in place, so a result
  always carries the state reached.
\<close>

definition trace_call :: "trace_msg \<Rightarrow> world \<Rightarrow> outcome \<times> world" where
  "trace_call m s =
     (case traceSink s of
        None \<Rightarrow> (Threw TypeError, s)
      | Some l \<Rightarrow> (Returned, s\<lparr>traceSink := Some (l @ [m])\<rparr>))"

text \<open>
  \<^verbatim>\<open>this.clientEngine.step(time, dt, flag)\<close>: the collaborator is opaque; the model
  records the invocation and lets the parameter \<open>throws\<close> decide whether it raises.
  It is taken not to write the clock fields.
\<close>

definition step :: "(step_call \<Rightarrow> bool) \<Rightarrow> real \<Rightarrow> real \<Rightarrow> bool option \<Rightarrow> world \<Rightarrow> outcome \<times> world" where
  "step throws time dt flag s =
     (let c = StepCall time dt flag;
          s' = s\<lparr>stepCalls := stepCalls s @ [c]\<rparr>
      in if throws c then (Threw StepFailure, s') else (Returned, s'))"

text \<open>Statement sequencing: a throw skips the rest.\<close>

definition seq :: "outcome \<times> world \<Rightarrow> (world \<Rightarrow> outcome \<times> world) \<Rightarrow> outcome \<times> world" where
  "seq r f = (if fst r = Returned then f (snd r) else r)"

text \<open>Lines 70-76: the reset test and the re-centring of the clock.\<close>

definition resetDue :: "real \<Rightarrow> world \<Rightarrow> bool" where
  "resetDue t s = (doReset s \<or> t > lastStepTime s + TIME_RESET_THRESHOLD)"

definition resetBlock :: "real \<Rightarrow> real \<Rightarrow> world \<Rightarrow> outcome \<times> world" where
  "resetBlock p t s =
     (if resetDue t s then
        (let s1 = s\<lparr>doReset := False\<rparr>;
             s2 = s1\<lparr>lastStepTime := t - p / 2\<rparr>;
             s3 = s2\<lparr>correction := p / 2\<rparr>
         in trace_call (Resetting (lastStepTime s3) p) s3)
      else (Returned, s))"

text \<open>Lines 80-84: the body of the catch-up loop.\<close>

definition catchUpBody :: "(step_call \<Rightarrow> bool) \<Rightarrow> real \<Rightarrow> real \<Rightarrow> world \<Rightarrow> outcome \<times> world" where
  "catchUpBody throws p t s =
     seq (trace_call (DrawingExtra t (lastStepTime s) (correction s) p) s)
       (\<lambda>s. seq (step throws (lastStepTime s + p) (p + correction s) None s)
          (\<lambda>s. (Returned, s\<lparr>lastStepTime := lastStepTime s + p, correction := 0\<rparr>)))"

text \<open>
  Lines 79-85: the while loop. It need not end (a period that is not positive never
  reaches \<open>t\<close>), so not returning is the value \<open>None\<close>. The sums are exact here. Over
  IEEE doubles \<^verbatim>\<open>lastStepTime += p\<close> can round to no change (\<^verbatim>\<open>lastStepTime\<close> at \<open>2^53\<close> with
  period 1), and the code then loops on where this function returns: whatever is said
  below about a tick ending is said of the exact sums.
\<close>

partial_function (option) catchUp ::
  "(step_call \<Rightarrow> bool) \<Rightarrow> real \<Rightarrow> real \<Rightarrow> world \<Rightarrow> (outcome \<times> world) option" where
  "catchUp throws p t s =
     (if t > lastStepTime s + p then
        (let r = catchUpBody throws p t s
         in if fst r = Returned then catchUp throws p t (snd r) else Some r)
      else Some (Returned, s))"

text \<open>Lines 87-111: the early (no-step) branch with its return, else the normal step.\<close>

definition finishStep :: "(step_call \<Rightarrow> bool) \<Rightarrow> real \<Rightarrow> real \<Rightarrow> world \<Rightarrow> outcome \<times> world" where
  "finishStep throws p t s =
     (if t < lastStepTime s then
        seq (trace_call (DrawingNoStep t (t - lastStepTime s) (correction s) p) s)
          (\<lambda>s. let dt = t - lastStepTime s + correction s;
                    dt = (if dt < 0 then 0 else dt);
                    s = s\<lparr>correction := lastStepTime s - t\<rparr>
                in step throws t dt (Some True) s)
      else
        seq (trace_call (Drawing t (lastStepTime s) (correction s) p) s)
          (\<lambda>s. let dt = t - lastStepTime s + correction s;
                    s = s\<lparr>lastStepTime := lastStepTime s + p\<rparr>;
                    s = s\<lparr>correction := lastStepTime s - t\<rparr>
                in seq (step throws t dt None s)
                     (\<lambda>s. trace_call (Done t (lastStepTime s) (correction s) p) s)))"

text \<open>Lines 78-111: everything after the reset block.\<close>

definition catchUpAndFinish :: "(step_call \<Rightarrow> bool) \<Rightarrow> real \<Rightarrow> real \<Rightarrow> world \<Rightarrow> (outcome \<times> world) option" where
  "catchUpAndFinish throws p t s =
     (case catchUp throws p t s of
        None \<Rightarrow> None
      | Some r \<Rightarrow> Some (seq r (finishStep throws p t)))"

text \<open>\<^verbatim>\<open>runClientStep(t, dt)\<close>: the incoming \<open>dt\<close> is overwritten before any use.\<close>

definition runClientStep :: "(step_call \<Rightarrow> bool) \<Rightarrow> real \<Rightarrow> real \<Rightarrow> world \<Rightarrow> (outcome \<times> world) option" where
  "runClientStep throws t dt s =
     (let p = stepPeriod (options s);
          r = resetBlock p t s
      in if fst r = Returned then catchUpAndFinish throws p t (snd r) else Some r)"

text \<open>\<^verbatim>\<open>draw(t, dt)\<close>: the mode gate.\<close>

definition draw :: "(step_call \<Rightarrow> bool) \<Rightarrow> real \<Rightarrow> real \<Rightarrow> world \<Rightarrow> (outcome \<times> world) option" where
  "draw throws t dt s =
     (if scheduler (options s) = ''render-schedule'' then runClientStep throws t dt s
      else Some (Returned, s))"

text \<open>Line 23: the handler the constructor registers for \<^verbatim>\<open>'client__stepReset'\<close>.\<close>

definition onStepReset :: "world \<Rightarrow> world" where
  "onStepReset s = s\<lparr>doReset := True\<rparr>"

text \<open>
  The callers of \<^verbatim>\<open>draw\<close> and the emitter of the reset event are outside this file. A
  run of that environment is a list of events, each a tick or a reset signal. An
  exception thrown by a tick goes to the render loop; the state it reached stays, and
  the later events act on it.
\<close>

datatype host_event = Tick real real | StepReset

fun host_loop :: "(step_call \<Rightarrow> bool) \<Rightarrow> host_event list \<Rightarrow> world \<Rightarrow> world option" where
  "host_loop throws [] s = Some s"
| "host_loop throws (StepReset # es) s = host_loop throws es (onStepReset s)"
| "host_loop throws (Tick t dt # es) s =
     (case draw throws t dt s of
        None \<Rightarrow> None
      | Some r \<Rightarrow> host_loop throws es (snd r))"

text \<open>
  Two states that agree on everything but the messages their trace objects hold, both
  objects being present: the relation under which the trace is compared away.
\<close>

definition sinkVariant :: "world \<Rightarrow> world \<Rightarrow> bool" where
  "sinkVariant a b =
     (doReset a = doReset b \<and> options a = options b \<and> lastStepTime a = lastStepTime b
      \<and> correction a = correction b \<and> stepCalls a = stepCalls b
      \<and> traceSink a \<noteq> None \<and> traceSink b \<noteq> None)"

section \<open>The blocks of a tick\<close>

lemma trace_call_None: "traceSink s = None \<Longrightarrow> trace_call m s = (Threw TypeError, s)"
  by (simp add: trace_call_def)

lemma trace_call_Some:
  "traceSink s = Some l \<Longrightarrow> trace_call m s = (Returned, s\<lparr>traceSink := Some (l @ [m])\<rparr>)"
  by (simp add: trace_call_def)

lemma catchUpBody_absent:
  "traceSink s = None \<Longrightarrow> catchUpBody throws p t s = (Threw TypeError, s)"
  by (simp add: catchUpBody_def seq_def trace_call_None)

lemma catchUpBody_present:
  "traceSink s = Some l \<Longrightarrow>
   catchUpBody throws p t s =
     (if throws (StepCall (lastStepTime s + p) (p + correction s) None)
      then (Threw StepFailure,
            s\<lparr>traceSink := Some (l @ [DrawingExtra t (lastStepTime s) (correction s) p]),
              stepCalls := stepCalls s @ [StepCall (lastStepTime s + p) (p + correction s) None]\<rparr>)
      else (Returned,
            s\<lparr>traceSink := Some (l @ [DrawingExtra t (lastStepTime s) (correction s) p]),
              stepCalls := stepCalls s @ [StepCall (lastStepTime s + p) (p + correction s) None],
              lastStepTime := lastStepTime s + p, correction := 0\<rparr>))"
  by (simp add: catchUpBody_def seq_def trace_call_Some step_def Let_def)

text \<open>
  The loop rule: an invariant kept by every iteration that returns gives the
  postcondition at the normal exit; an iteration that throws ends the loop with the
  state it reached.
\<close>

lemma catchUp_rule:
  assumes run: "catchUp throws p t s = Some r"
    and init: "I s"
    and body: "\<And>s. I s \<Longrightarrow> lastStepTime s + p < t \<Longrightarrow> fst (catchUpBody throws p t s) = Returned
                 \<Longrightarrow> I (snd (catchUpBody throws p t s))"
    and thrown: "\<And>s. I s \<Longrightarrow> lastStepTime s + p < t \<Longrightarrow> fst (catchUpBody throws p t s) \<noteq> Returned
                 \<Longrightarrow> Q (catchUpBody throws p t s)"
    and exit: "\<And>s. I s \<Longrightarrow> \<not> lastStepTime s + p < t \<Longrightarrow> Q (Returned, s)"
  shows "Q r"
proof -
  have "f = throws \<and> q = p \<and> u = t \<longrightarrow> I s' \<longrightarrow> Q y"
    if "catchUp f q u s' = Some y" for f q u s' y
  proof (rule catchUp.raw_induct
      [where P = "\<lambda>f q u s' y. f = throws \<and> q = p \<and> u = t \<longrightarrow> I s' \<longrightarrow> Q y", OF _ that])
    fix loop f q u s' y
    assume IH: "\<And>f q u s' y. loop f q u s' = Some y \<Longrightarrow> f = throws \<and> q = p \<and> u = t \<longrightarrow> I s' \<longrightarrow> Q y"
      and unf: "(if lastStepTime s' + q < u
                 then let r = catchUpBody f q u s'
                      in if fst r = Returned then loop f q u (snd r) else Some r
                 else Some (Returned, s')) = Some y"
    show "f = throws \<and> q = p \<and> u = t \<longrightarrow> I s' \<longrightarrow> Q y"
    proof (intro impI, elim conjE)
      assume eq: "f = throws" "q = p" "u = t" and inv: "I s'"
      show "Q y"
      proof (cases "lastStepTime s' + p < t")
        case False
        with unf eq have "y = (Returned, s')" by simp
        with exit [OF inv False] show ?thesis by simp
      next
        case True
        show ?thesis
        proof (cases "fst (catchUpBody throws p t s') = Returned")
          case ret: True
          with unf eq True have "loop throws p t (snd (catchUpBody throws p t s')) = Some y"
            by (simp add: Let_def)
          from IH [OF this] body [OF inv True ret] show ?thesis by simp
        next
          case thr: False
          with unf eq True have "y = catchUpBody throws p t s'"
            by (simp add: Let_def)
          with thrown [OF inv True thr] show ?thesis by simp
        qed
      qed
    qed
  qed
  from this [OF run] init show ?thesis by simp
qed

text \<open>With a positive period the loop ends: each iteration moves the clock one period closer to \<open>t\<close>.\<close>

lemma catchUp_total_aux:
  "0 < p \<Longrightarrow> t \<le> lastStepTime s + p + real n * p \<Longrightarrow> \<exists>r. catchUp throws p t s = Some r"
proof (induction n arbitrary: s)
  case 0
  then show ?case by (subst catchUp.simps) simp
next
  case (Suc n)
  show ?case
  proof (cases "lastStepTime s + p < t \<and> fst (catchUpBody throws p t s) = Returned")
    case False
    then show ?thesis by (subst catchUp.simps) (auto simp: Let_def)
  next
    case True
    then obtain l where l: "traceSink s = Some l"
      by (cases "traceSink s") (auto simp: catchUpBody_absent)
    from True have st: "lastStepTime (snd (catchUpBody throws p t s)) = lastStepTime s + p"
      by (auto simp: catchUpBody_present [OF l] split: if_splits)
    from Suc.prems have "t \<le> (lastStepTime s + p) + p + real n * p"
      by (simp add: algebra_simps)
    with Suc.IH [OF Suc.prems(1), of "snd (catchUpBody throws p t s)"] st
    obtain r where "catchUp throws p t (snd (catchUpBody throws p t s)) = Some r" by auto
    with True show ?thesis by (subst catchUp.simps) (simp add: Let_def)
  qed
qed

lemma catchUp_total:
  assumes "0 < p" shows "\<exists>r. catchUp throws p t s = Some r"
proof -
  obtain n where "(t - lastStepTime s - p) / p < real n"
    using reals_Archimedean2 by blast
  with assms have "t - lastStepTime s - p < real n * p"
    by (simp add: pos_divide_less_eq)
  then have "t \<le> lastStepTime s + p + real n * p" by simp
  from catchUp_total_aux [OF assms this] show ?thesis .
qed


subsection \<open>Each block in closed form\<close>

lemma resetBlock_not_due: "\<not> resetDue t s \<Longrightarrow> resetBlock p t s = (Returned, s)"
  by (simp add: resetBlock_def)

lemma resetBlock_due_absent:
  "resetDue t s \<Longrightarrow> traceSink s = None \<Longrightarrow>
   resetBlock p t s =
     (Threw TypeError, s\<lparr>doReset := False, lastStepTime := t - p / 2, correction := p / 2\<rparr>)"
  by (simp add: resetBlock_def trace_call_def Let_def)

lemma resetBlock_due_present:
  "resetDue t s \<Longrightarrow> traceSink s = Some l \<Longrightarrow>
   resetBlock p t s =
     (Returned, s\<lparr>doReset := False, lastStepTime := t - p / 2, correction := p / 2,
                  traceSink := Some (l @ [Resetting (t - p / 2) p])\<rparr>)"
  by (simp add: resetBlock_def trace_call_def Let_def)

lemma finishStep_absent: "traceSink s = None \<Longrightarrow> finishStep throws p t s = (Threw TypeError, s)"
  by (simp add: finishStep_def seq_def trace_call_None)

lemma finishStep_early:
  "traceSink s = Some l \<Longrightarrow> t < lastStepTime s \<Longrightarrow>
   finishStep throws p t s =
     (if throws (StepCall t (max 0 (t - lastStepTime s + correction s)) (Some True))
      then Threw StepFailure else Returned,
      s\<lparr>traceSink := Some (l @ [DrawingNoStep t (t - lastStepTime s) (correction s) p]),
        correction := lastStepTime s - t,
        stepCalls := stepCalls s @
          [StepCall t (max 0 (t - lastStepTime s + correction s)) (Some True)]\<rparr>)"
  by (simp add: finishStep_def seq_def trace_call_Some step_def Let_def max_def not_less)

lemma finishStep_normal:
  "traceSink s = Some l \<Longrightarrow> \<not> t < lastStepTime s \<Longrightarrow>
   finishStep throws p t s =
     (if throws (StepCall t (t - lastStepTime s + correction s) None)
      then (Threw StepFailure,
            s\<lparr>traceSink := Some (l @ [Drawing t (lastStepTime s) (correction s) p]),
              lastStepTime := lastStepTime s + p,
              correction := lastStepTime s + p - t,
              stepCalls := stepCalls s @ [StepCall t (t - lastStepTime s + correction s) None]\<rparr>)
      else (Returned,
            s\<lparr>traceSink := Some (l @ [Drawing t (lastStepTime s) (correction s) p,
                                       Done t (lastStepTime s + p) (lastStepTime s + p - t) p]),
              lastStepTime := lastStepTime s + p,
              correction := lastStepTime s + p - t,
              stepCalls := stepCalls s @ [StepCall t (t - lastStepTime s + correction s) None]\<rparr>))"
  by (simp add: finishStep_def seq_def trace_call_Some step_def Let_def)

lemma catchUp_skip: "\<not> lastStepTime s + p < t \<Longrightarrow> catchUp throws p t s = Some (Returned, s)"
  by (subst catchUp.simps) simp

lemma catchUp_absent:
  "traceSink s = None \<Longrightarrow>
   catchUp throws p t s = Some (if lastStepTime s + p < t then Threw TypeError else Returned, s)"
  by (subst catchUp.simps) (simp add: catchUpBody_absent)


subsection \<open>What the loop keeps and what it leaves\<close>

lemma catchUpBody_cases:
  obtains (absent) "traceSink s = None" "catchUpBody throws p t s = (Threw TypeError, s)"
  | (threw) l where "traceSink s = Some l"
      "throws (StepCall (lastStepTime s + p) (p + correction s) None)"
      "catchUpBody throws p t s = (Threw StepFailure,
            s\<lparr>traceSink := Some (l @ [DrawingExtra t (lastStepTime s) (correction s) p]),
              stepCalls := stepCalls s @ [StepCall (lastStepTime s + p) (p + correction s) None]\<rparr>)"
  | (returned) l where "traceSink s = Some l"
      "\<not> throws (StepCall (lastStepTime s + p) (p + correction s) None)"
      "catchUpBody throws p t s = (Returned,
            s\<lparr>traceSink := Some (l @ [DrawingExtra t (lastStepTime s) (correction s) p]),
              stepCalls := stepCalls s @ [StepCall (lastStepTime s + p) (p + correction s) None],
              lastStepTime := lastStepTime s + p, correction := 0\<rparr>)"
proof (cases "traceSink s")
  case None
  then show ?thesis using absent catchUpBody_absent by blast
next
  case (Some l)
  then show ?thesis
    using threw [OF Some] returned [OF Some] catchUpBody_present [OF Some, of throws p t]
    by (cases "throws (StepCall (lastStepTime s + p) (p + correction s) None)") simp_all
qed

lemma catchUp_frame:
  assumes run: "catchUp throws p t s = Some r"
  shows "options (snd r) = options s \<and> doReset (snd r) = doReset s
         \<and> (traceSink (snd r) = None \<longleftrightarrow> traceSink s = None)"
proof -
  let ?I = "\<lambda>s' :: world. options s' = options s \<and> doReset s' = doReset s
         \<and> (traceSink s' = None \<longleftrightarrow> traceSink s = None)"
  have body: "?I (snd (catchUpBody throws p t s'))" if "?I s'" for s'
    using that by (cases rule: catchUpBody_cases [where s = s' and throws = throws and p = p and t = t]) auto
  have "?I (snd r)"
    by (rule catchUp_rule [OF run, where I = ?I and Q = "\<lambda>r. ?I (snd r)"])
      (simp_all add: body)
  then show ?thesis .
qed

lemma catchUp_exit:
  assumes run: "catchUp throws p t s = Some r" and ret: "fst r = Returned"
  shows "t \<le> lastStepTime (snd r) + p"
proof -
  have "fst r = Returned \<longrightarrow> t \<le> lastStepTime (snd r) + p"
    by (rule catchUp_rule [OF run, where I = "\<lambda>s'. True"]) simp_all
  with ret show ?thesis by simp
qed


lemma catchUp_nonneg:
  assumes run: "catchUp throws p t s = Some r" and pos: "0 < p" and corr: "0 \<le> correction s"
  shows "0 \<le> correction (snd r)
         \<and> (\<exists>calls. stepCalls (snd r) = stepCalls s @ calls \<and> (\<forall>c\<in>set calls. 0 \<le> callDt c))"
proof -
  let ?I = "\<lambda>s' :: world. 0 \<le> correction s'
         \<and> (\<exists>calls. stepCalls s' = stepCalls s @ calls \<and> (\<forall>c\<in>set calls. 0 \<le> callDt c))"
  have body: "?I (snd (catchUpBody throws p t s'))" if inv: "?I s'" for s'
  proof -
    from inv obtain calls where c: "stepCalls s' = stepCalls s @ calls"
      "\<forall>c\<in>set calls. 0 \<le> callDt c" by blast
    let ?c = "StepCall (lastStepTime s' + p) (p + correction s') None"
    show ?thesis
    proof (cases rule: catchUpBody_cases [where s = s' and throws = throws and p = p and t = t])
      case absent
      with inv show ?thesis by simp
    next
      case (threw l)
      with inv c pos show ?thesis by (intro conjI exI [of _ "calls @ [?c]"]) simp_all
    next
      case (returned l)
      with inv c pos show ?thesis by (intro conjI exI [of _ "calls @ [?c]"]) simp_all
    qed
  qed
  have "?I (snd r)"
    by (rule catchUp_rule [OF run, where I = ?I and Q = "\<lambda>r. ?I (snd r)"])
      (use corr body in simp_all)
  then show ?thesis .
qed

lemma resetBlock_frame:
  "options (snd (resetBlock p t s)) = options s
   \<and> stepCalls (snd (resetBlock p t s)) = stepCalls s
   \<and> (traceSink (snd (resetBlock p t s)) = None \<longleftrightarrow> traceSink s = None)
   \<and> (fst (resetBlock p t s) = Returned \<or> fst (resetBlock p t s) = Threw TypeError)"
  by (cases "resetDue t s"; cases "traceSink s")
    (simp_all add: resetBlock_not_due resetBlock_due_absent resetBlock_due_present)

lemma resetBlock_clock:
  "resetDue t s \<Longrightarrow>
     lastStepTime (snd (resetBlock p t s)) = t - p / 2
     \<and> correction (snd (resetBlock p t s)) = p / 2
     \<and> \<not> doReset (snd (resetBlock p t s))"
  by (cases "traceSink s") (simp_all add: resetBlock_due_absent resetBlock_due_present)

lemma finishStep_frame:
  "options (snd (finishStep throws p t s)) = options s
   \<and> doReset (snd (finishStep throws p t s)) = doReset s"
  by (cases "traceSink s"; cases "t < lastStepTime s")
    (simp_all add: finishStep_absent finishStep_early finishStep_normal)

lemma finishStep_nonneg:
  assumes "t \<le> lastStepTime s + p" and "0 \<le> correction s"
  shows "0 \<le> correction (snd (finishStep throws p t s))
         \<and> (\<exists>calls. stepCalls (snd (finishStep throws p t s)) = stepCalls s @ calls
              \<and> (\<forall>c\<in>set calls. 0 \<le> callDt c))"
proof (cases "traceSink s")
  case None
  with assms show ?thesis by (simp add: finishStep_absent)
next
  case (Some l)
  show ?thesis
  proof (cases "t < lastStepTime s")
    case True
    with assms show ?thesis by (simp add: finishStep_early [OF Some True])
  next
    case False
    with assms show ?thesis by (simp add: finishStep_normal [OF Some False])
  qed
qed

lemma finishStep_returned_correction:
  assumes "t \<le> lastStepTime s + p" and "fst (finishStep throws p t s) = Returned"
  shows "0 \<le> correction (snd (finishStep throws p t s))"
proof (cases "traceSink s")
  case None
  with assms show ?thesis by (simp add: finishStep_absent)
next
  case (Some l)
  show ?thesis
  proof (cases "t < lastStepTime s")
    case True
    with assms show ?thesis by (simp add: finishStep_early [OF Some True])
  next
    case False
    with assms show ?thesis by (simp add: finishStep_normal [OF Some False])
  qed
qed

subsection \<open>The paths through a tick\<close>

lemma runClientStep_cases:
  fixes s :: world and throws t dt
  defines "p \<equiv> stepPeriod (options s)"
  defines "r0 \<equiv> resetBlock p t s"
  obtains (reset_threw) "fst r0 \<noteq> Returned" "runClientStep throws t dt s = Some r0"
  | (diverged) "fst r0 = Returned" "catchUp throws p t (snd r0) = None"
      "runClientStep throws t dt s = None"
  | (loop_threw) r1 where "fst r0 = Returned" "catchUp throws p t (snd r0) = Some r1"
      "fst r1 \<noteq> Returned" "runClientStep throws t dt s = Some r1"
  | (finished) r1 where "fst r0 = Returned" "catchUp throws p t (snd r0) = Some r1"
      "fst r1 = Returned" "runClientStep throws t dt s = Some (finishStep throws p t (snd r1))"
proof (cases "fst r0 = Returned")
  case False
  then show ?thesis
    using reset_threw by (simp add: runClientStep_def Let_def p_def r0_def)
next
  case True
  show ?thesis
  proof (cases "catchUp throws p t (snd r0)")
    case None
    with True show ?thesis
      using diverged by (simp add: runClientStep_def Let_def p_def r0_def catchUpAndFinish_def)
  next
    case (Some r1)
    with True show ?thesis
      using loop_threw [OF True Some] finished [OF True Some]
      by (cases "fst r1 = Returned")
        (simp_all add: runClientStep_def Let_def p_def r0_def catchUpAndFinish_def seq_def)
  qed
qed

lemma runClientStep_total:
  assumes "0 < stepPeriod (options s)"
  shows "\<exists>r. runClientStep throws t dt s = Some r"
proof (cases rule: runClientStep_cases [where s = s and throws = throws and t = t and dt = dt])
  case diverged
  with catchUp_total [OF assms] show ?thesis by (metis option.distinct(1))
qed auto

lemma runClientStep_nonneg:
  assumes pos: "0 < stepPeriod (options s)" and corr: "0 \<le> correction s"
    and run: "runClientStep throws t dt s = Some r"
  shows "options (snd r) = options s \<and> 0 \<le> correction (snd r)
         \<and> (\<exists>calls. stepCalls (snd r) = stepCalls s @ calls \<and> (\<forall>c\<in>set calls. 0 \<le> callDt c))"
proof -
  let ?p = "stepPeriod (options s)"
  let ?r0 = "resetBlock ?p t s"
  have c0: "0 \<le> correction (snd ?r0)"
    using pos corr resetBlock_clock [of t s ?p]
    by (cases "resetDue t s") (simp_all add: resetBlock_not_due)
  note f0 = resetBlock_frame [of ?p t s]
  show ?thesis
  proof (cases rule: runClientStep_cases [where s = s and throws = throws and t = t and dt = dt])
    case reset_threw
    with run c0 f0 show ?thesis by simp
  next
    case diverged
    with run show ?thesis by simp
  next
    case (loop_threw r1)
    from catchUp_nonneg [OF loop_threw(2) pos c0] catchUp_frame [OF loop_threw(2)]
      loop_threw(4) run f0
    show ?thesis by auto
  next
    case (finished r1)
    from catchUp_nonneg [OF finished(2) pos c0] obtain calls1 where
      c1: "0 \<le> correction (snd r1)" "stepCalls (snd r1) = stepCalls (snd ?r0) @ calls1"
        "\<forall>c\<in>set calls1. 0 \<le> callDt c" by blast
    from finishStep_nonneg [OF catchUp_exit [OF finished(2,3)] c1(1), of throws] obtain calls2 where
      c2: "0 \<le> correction (snd (finishStep throws ?p t (snd r1)))"
        "stepCalls (snd (finishStep throws ?p t (snd r1))) = stepCalls (snd r1) @ calls2"
        "\<forall>c\<in>set calls2. 0 \<le> callDt c" by blast
    have "stepCalls (snd r) = stepCalls s @ (calls1 @ calls2)"
      using finished(4) run c1(2) c2(2) f0 by simp
    moreover have "\<forall>c\<in>set (calls1 @ calls2). 0 \<le> callDt c"
      using c1(3) c2(3) by auto
    moreover have "options (snd r) = options s"
      using finished(4) run finishStep_frame [of throws ?p t "snd r1"]
        catchUp_frame [OF finished(2)] f0 by simp
    moreover have "0 \<le> correction (snd r)"
      using finished(4) run c2(1) by simp
    ultimately show ?thesis by blast
  qed
qed

lemma draw_nonneg:
  assumes pos: "0 < stepPeriod (options s)" and corr: "0 \<le> correction s"
  shows "\<exists>r. draw throws t dt s = Some r \<and> options (snd r) = options s \<and> 0 \<le> correction (snd r)
         \<and> (\<exists>calls. stepCalls (snd r) = stepCalls s @ calls \<and> (\<forall>c\<in>set calls. 0 \<le> callDt c))"
proof (cases "scheduler (options s) = ''render-schedule''")
  case False
  with corr show ?thesis by (simp add: draw_def)
next
  case True
  from runClientStep_total [OF pos] obtain r where r: "runClientStep throws t dt s = Some r"
    by blast
  from runClientStep_nonneg [OF pos corr r] r True show ?thesis
    by (simp add: draw_def)
qed

lemma host_loop_nonneg:
  assumes "0 < stepPeriod (options s)" and "0 \<le> correction s"
  shows "\<exists>s'. host_loop throws es s = Some s' \<and> options s' = options s \<and> 0 \<le> correction s'
         \<and> (\<exists>calls. stepCalls s' = stepCalls s @ calls \<and> (\<forall>c\<in>set calls. 0 \<le> callDt c))"
  using assms
proof (induction es arbitrary: s)
  case Nil
  then show ?case by simp
next
  case (Cons e es)
  show ?case
  proof (cases e)
    case StepReset
    from Cons.IH [of "onStepReset s"] Cons.prems show ?thesis
      by (simp add: StepReset onStepReset_def)
  next
    case (Tick t dt)
    from draw_nonneg [OF Cons.prems, of throws t dt] obtain r calls1 where
      r: "draw throws t dt s = Some r" "options (snd r) = options s" "0 \<le> correction (snd r)"
        "stepCalls (snd r) = stepCalls s @ calls1" "\<forall>c\<in>set calls1. 0 \<le> callDt c" by blast
    from Cons.IH [of "snd r"] Cons.prems(1) r(2,3) obtain s' calls2 where
      s': "host_loop throws es (snd r) = Some s'" "options s' = options (snd r)"
        "0 \<le> correction s'" "stepCalls s' = stepCalls (snd r) @ calls2"
        "\<forall>c\<in>set calls2. 0 \<le> callDt c" by auto
    have "stepCalls s' = stepCalls s @ (calls1 @ calls2)"
      using r(4) s'(4) by simp
    moreover have "\<forall>c\<in>set (calls1 @ calls2). 0 \<le> callDt c"
      using r(5) s'(5) by auto
    ultimately show ?thesis
      using r(1,2) s'(1,2,3) unfolding Tick by (simp only: host_loop.simps option.case) blast
  qed
qed

subsection \<open>The step calls and the messages of a tick\<close>


lemma resetBlock_present:
  assumes sink: "traceSink s = Some l"
  shows "fst (resetBlock p t s) = Returned
         \<and> (\<exists>pre. traceSink (snd (resetBlock p t s)) = Some (l @ pre)
              \<and> (if resetDue t s then \<exists>m. pre = [m] \<and> isResetting m else pre = []))"
  using sink
  by (cases "resetDue t s") (simp_all add: resetBlock_not_due resetBlock_due_present)



lemma runClientStep_absent:
  assumes sink: "traceSink s = None"
  shows "\<exists>s'. runClientStep throws t dt s = Some (Threw TypeError, s') \<and> stepCalls s' = stepCalls s"
proof (cases "resetDue t s")
  case True
  then show ?thesis
    by (simp add: runClientStep_def Let_def resetBlock_due_absent [OF True sink])
next
  case False
  then show ?thesis
    by (simp add: runClientStep_def Let_def resetBlock_not_due [OF False] catchUpAndFinish_def
        catchUp_absent [OF sink] seq_def finishStep_absent [OF sink])
qed

lemma catchUp_burst:
  assumes run: "catchUp throws p t s = Some r"
  shows "\<exists>burst. stepCalls (snd r) = stepCalls s @ burst
           \<and> (\<forall>c\<in>set burst. callTime c < t \<and> callFlag c = None)"
proof -
  let ?I = "\<lambda>s' :: world. \<exists>burst. stepCalls s' = stepCalls s @ burst
           \<and> (\<forall>c\<in>set burst. callTime c < t \<and> callFlag c = None)"
  have body: "?I (snd (catchUpBody throws p t s'))"
    if inv: "?I s'" and loop: "lastStepTime s' + p < t" for s'
  proof -
    from inv obtain burst where b: "stepCalls s' = stepCalls s @ burst"
      "\<forall>c\<in>set burst. callTime c < t \<and> callFlag c = None" by blast
    let ?c = "StepCall (lastStepTime s' + p) (p + correction s') None"
    show ?thesis
    proof (cases rule: catchUpBody_cases [where s = s' and throws = throws and p = p and t = t])
      case absent
      with inv show ?thesis by simp
    next
      case (threw l)
      with b loop show ?thesis by (intro exI [of _ "burst @ [?c]"]) simp
    next
      case (returned l)
      with b loop show ?thesis by (intro exI [of _ "burst @ [?c]"]) simp
    qed
  qed
  have "?I (snd r)"
    by (rule catchUp_rule [OF run, where I = ?I and Q = "\<lambda>r. ?I (snd r)"])
      (use body in simp_all)
  then show ?thesis .
qed

lemma finishStep_final:
  "\<exists>fin. stepCalls (snd (finishStep throws p t s)) = stepCalls s @ fin
     \<and> (fin = [] \<or> (\<exists>d. fin = [StepCall t d (Some True)]) \<or> (\<exists>d. fin = [StepCall t d None]))
     \<and> (fst (finishStep throws p t s) = Returned \<longrightarrow> fin \<noteq> [])"
proof (cases "traceSink s")
  case None
  then show ?thesis by (simp add: finishStep_absent)
next
  case (Some l)
  show ?thesis
  proof (cases "t < lastStepTime s")
    case True
    show ?thesis
      unfolding finishStep_early [OF Some True]
      by (intro exI [of _ "[StepCall t (max 0 (t - lastStepTime s + correction s)) (Some True)]"])
        simp
  next
    case False
    show ?thesis
      unfolding finishStep_normal [OF Some False]
      by (intro exI [of _ "[StepCall t (t - lastStepTime s + correction s) None]"]) simp
  qed
qed

lemma catchUp_tally:
  assumes run: "catchUp throws p t s = Some r" and sink: "traceSink s = Some l"
  shows "\<exists>new calls. traceSink (snd r) = Some (l @ new) \<and> stepCalls (snd r) = stepCalls s @ calls
           \<and> length new = length calls
           \<and> fst r = (if \<exists>c\<in>set calls. throws c then Threw StepFailure else Returned)"
proof -
  let ?I = "\<lambda>s' :: world. \<exists>new calls. traceSink s' = Some (l @ new)
           \<and> stepCalls s' = stepCalls s @ calls \<and> length new = length calls
           \<and> (\<forall>c\<in>set calls. \<not> throws c)"
  let ?Q = "\<lambda>r :: outcome \<times> world. \<exists>new calls. traceSink (snd r) = Some (l @ new)
           \<and> stepCalls (snd r) = stepCalls s @ calls \<and> length new = length calls
           \<and> fst r = (if \<exists>c\<in>set calls. throws c then Threw StepFailure else Returned)"
  have init: "?I s"
    using sink by (intro exI [of _ "[]"]) simp
  have step: "(fst (catchUpBody throws p t s') = Returned \<longrightarrow> ?I (snd (catchUpBody throws p t s')))
      \<and> (fst (catchUpBody throws p t s') \<noteq> Returned \<longrightarrow> ?Q (catchUpBody throws p t s'))"
    if inv: "?I s'" for s'
  proof -
    from inv obtain new calls where n: "traceSink s' = Some (l @ new)"
      "stepCalls s' = stepCalls s @ calls" "length new = length calls"
      "\<forall>c\<in>set calls. \<not> throws c" by blast
    let ?m = "DrawingExtra t (lastStepTime s') (correction s') p"
    let ?c = "StepCall (lastStepTime s' + p) (p + correction s') None"
    show ?thesis
    proof (cases "throws ?c")
      case True
      then have eq: "catchUpBody throws p t s' = (Threw StepFailure,
           s'\<lparr>traceSink := Some ((l @ new) @ [?m]), stepCalls := stepCalls s' @ [?c]\<rparr>)"
        using catchUpBody_present [OF n(1), of throws p t] by simp
      have "?Q (catchUpBody throws p t s')"
        using n True unfolding eq
        by (intro exI [of _ "new @ [?m]"] exI [of _ "calls @ [?c]"]) simp
      then show ?thesis by (simp add: eq)
    next
      case False
      then have eq: "catchUpBody throws p t s' = (Returned,
           s'\<lparr>traceSink := Some ((l @ new) @ [?m]), stepCalls := stepCalls s' @ [?c],
              lastStepTime := lastStepTime s' + p, correction := 0\<rparr>)"
        using catchUpBody_present [OF n(1), of throws p t] by simp
      have "?I (snd (catchUpBody throws p t s'))"
        using n False unfolding eq
        by (intro exI [of _ "new @ [?m]"] exI [of _ "calls @ [?c]"]) simp
      then show ?thesis by (simp add: eq)
    qed
  qed
  have exit: "?Q (Returned, s')" if "?I s'" for s'
    using that by auto
  show ?thesis
  proof (rule catchUp_rule [OF run, where I = ?I and Q = ?Q])
    show "?I s" by (rule init)
  next
    fix s' assume "?I s'" "fst (catchUpBody throws p t s') = Returned"
    with step [of s'] show "?I (snd (catchUpBody throws p t s'))" by blast
  next
    fix s' assume "?I s'" "fst (catchUpBody throws p t s') \<noteq> Returned"
    with step [of s'] show "?Q (catchUpBody throws p t s')" by blast
  next
    fix s' assume "?I s'"
    then show "?Q (Returned, s')" by (rule exit)
  qed
qed

lemma finishStep_tally:
  assumes sink: "traceSink s = Some l"
  shows "\<exists>fin calls. traceSink (snd (finishStep throws p t s)) = Some (l @ fin)
           \<and> stepCalls (snd (finishStep throws p t s)) = stepCalls s @ calls
           \<and> fst (finishStep throws p t s) =
               (if \<exists>c\<in>set calls. throws c then Threw StepFailure else Returned)
           \<and> (fst (finishStep throws p t s) \<noteq> Returned \<longrightarrow> length fin = length calls)"
proof (cases "t < lastStepTime s")
  case True
  let ?c = "StepCall t (max 0 (t - lastStepTime s + correction s)) (Some True)"
  show ?thesis
    unfolding finishStep_early [OF sink True]
    by (intro exI [of _ "[DrawingNoStep t (t - lastStepTime s) (correction s) p]"] exI [of _ "[?c]"])
      simp
next
  case False
  let ?c = "StepCall t (t - lastStepTime s + correction s) None"
  show ?thesis
  proof (cases "throws ?c")
    case True
    show ?thesis
      unfolding finishStep_normal [OF sink False]
      using True
      by (intro exI [of _ "[Drawing t (lastStepTime s) (correction s) p]"] exI [of _ "[?c]"])
        simp
  next
    case ok: False
    show ?thesis
      unfolding finishStep_normal [OF sink False]
      using ok
      by (intro exI [of _ "[Drawing t (lastStepTime s) (correction s) p,
                            Done t (lastStepTime s + p) (lastStepTime s + p - t) p]"]
                exI [of _ "[?c]"])
        simp
  qed
qed

lemma resetBlock_tally:
  assumes sink: "traceSink s = Some l"
  shows "\<exists>pre. traceSink (snd (resetBlock p t s)) = Some (l @ pre)
           \<and> length pre = (if resetDue t s then 1 else 0)"
  using sink
  by (cases "resetDue t s") (simp_all add: resetBlock_not_due resetBlock_due_present)

lemma runClientStep_tally:
  assumes run: "runClientStep throws t dt s = Some r" and sink: "traceSink s = Some l"
  shows "\<exists>new calls.
           traceSink (snd r) = Some (l @ new)
           \<and> stepCalls (snd r) = stepCalls s @ calls
           \<and> fst r = (if \<exists>c\<in>set calls. throws c then Threw StepFailure else Returned)
           \<and> (fst r \<noteq> Returned \<longrightarrow>
                length new = (if resetDue t s then 1 else 0) + length calls)"
proof -
  let ?p = "stepPeriod (options s)"
  let ?r0 = "resetBlock ?p t s"
  from resetBlock_tally [OF sink, of ?p t] obtain pre where
    r0: "traceSink (snd ?r0) = Some (l @ pre)"
      "length pre = (if resetDue t s then 1 else 0)" by blast
  have c0: "stepCalls (snd ?r0) = stepCalls s"
    using resetBlock_frame [of ?p t s] by simp
  show ?thesis
  proof (cases rule: runClientStep_cases [where s = s and throws = throws and t = t and dt = dt])
    case reset_threw
    with resetBlock_present [OF sink, of ?p t] show ?thesis by simp
  next
    case diverged
    with run show ?thesis by simp
  next
    case (loop_threw r1)
    from catchUp_tally [OF loop_threw(2) r0(1)] obtain new calls where
      b: "traceSink (snd r1) = Some ((l @ pre) @ new)"
        "stepCalls (snd r1) = stepCalls (snd ?r0) @ calls"
        "length new = length calls"
        "fst r1 = (if \<exists>c\<in>set calls. throws c then Threw StepFailure else Returned)" by blast
    from loop_threw(4) run have r: "r = r1" by simp
    show ?thesis
      using b c0 r0(2) unfolding r
      by (intro exI [of _ "pre @ new"] exI [of _ calls]) simp
  next
    case (finished r1)
    from catchUp_tally [OF finished(2) r0(1)] finished(3) obtain new calls1 where
      b: "traceSink (snd r1) = Some ((l @ pre) @ new)"
        "stepCalls (snd r1) = stepCalls (snd ?r0) @ calls1"
        "length new = length calls1"
        "\<not> (\<exists>c\<in>set calls1. throws c)"
      by (metis outcome.distinct(1))
    let ?r2 = "finishStep throws ?p t (snd r1)"
    from finishStep_tally [OF b(1), of throws ?p t] obtain fin calls2 where
      f: "traceSink (snd ?r2) = Some (((l @ pre) @ new) @ fin)"
        "stepCalls (snd ?r2) = stepCalls (snd r1) @ calls2"
        "fst ?r2 = (if \<exists>c\<in>set calls2. throws c then Threw StepFailure else Returned)"
        "fst ?r2 \<noteq> Returned \<longrightarrow> length fin = length calls2" by blast
    from finished(4) run have r: "r = ?r2" by simp
    have calls: "stepCalls (snd ?r2) = stepCalls s @ (calls1 @ calls2)"
      using f(2) b(2) c0 by simp
    have out: "fst ?r2 = (if \<exists>c\<in>set (calls1 @ calls2). throws c then Threw StepFailure else Returned)"
      using f(3) b(4) by auto
    have tr: "traceSink (snd ?r2) = Some (l @ (pre @ new @ fin))"
      using f(1) by simp
    have cnt: "fst ?r2 \<noteq> Returned \<longrightarrow>
        length (pre @ new @ fin) = (if resetDue t s then 1 else 0) + length (calls1 @ calls2)"
      using f(4) b(3) r0(2) by simp
    show ?thesis
      unfolding r
      using tr calls out cnt
      by (intro exI [of _ "pre @ new @ fin"] exI [of _ "calls1 @ calls2"]) (simp only: simp_thms)
  qed
qed

lemma runClientStep_absent_sink:
  assumes sink: "traceSink s = None" and run: "runClientStep throws t dt s = Some r"
  shows "fst r = Threw TypeError \<and> stepCalls (snd r) = stepCalls s \<and> traceSink (snd r) = None"
proof (cases "resetDue t s")
  case True
  with run sink show ?thesis
    by (auto simp: runClientStep_def Let_def resetBlock_due_absent [OF True sink])
next
  case False
  with run sink show ?thesis
    by (auto simp: runClientStep_def Let_def resetBlock_not_due [OF False] catchUpAndFinish_def
        catchUp_absent [OF sink] seq_def finishStep_absent [OF sink])
qed

subsection \<open>Runs that differ in the trace only\<close>

lemma sinkVariant_sym: "sinkVariant a b \<Longrightarrow> sinkVariant b a"
  by (simp add: sinkVariant_def)

lemma sinkVariant_erase: "sinkVariant a b \<Longrightarrow> a\<lparr>traceSink := None\<rparr> = b\<lparr>traceSink := None\<rparr>"
  by (cases a; cases b) (simp add: sinkVariant_def)

lemma resetBlock_sim:
  assumes "sinkVariant a b"
  shows "fst (resetBlock p t a) = fst (resetBlock p t b)
         \<and> sinkVariant (snd (resetBlock p t a)) (snd (resetBlock p t b))"
proof -
  from assms obtain la lb where l: "traceSink a = Some la" "traceSink b = Some lb"
    by (auto simp: sinkVariant_def)
  from assms have d: "resetDue t a = resetDue t b"
    by (simp add: resetDue_def sinkVariant_def)
  show ?thesis
    using assms d l
    by (cases "resetDue t b")
      (simp_all add: resetBlock_not_due resetBlock_due_present sinkVariant_def)
qed

lemma catchUpBody_sim:
  assumes "sinkVariant a b"
  shows "fst (catchUpBody throws p t a) = fst (catchUpBody throws p t b)
         \<and> sinkVariant (snd (catchUpBody throws p t a)) (snd (catchUpBody throws p t b))"
proof -
  from assms obtain la lb where l: "traceSink a = Some la" "traceSink b = Some lb"
    by (auto simp: sinkVariant_def)
  show ?thesis
    using assms
    by (simp add: catchUpBody_present [OF l(1)] catchUpBody_present [OF l(2)] sinkVariant_def)
qed

lemma finishStep_sim:
  assumes "sinkVariant a b"
  shows "fst (finishStep throws p t a) = fst (finishStep throws p t b)
         \<and> sinkVariant (snd (finishStep throws p t a)) (snd (finishStep throws p t b))"
proof -
  from assms obtain la lb where l: "traceSink a = Some la" "traceSink b = Some lb"
    by (auto simp: sinkVariant_def)
  from assms have e: "lastStepTime a = lastStepTime b" by (simp add: sinkVariant_def)
  show ?thesis
  proof (cases "t < lastStepTime b")
    case True
    with e have "t < lastStepTime a" by simp
    from finishStep_early [OF l(1) this] finishStep_early [OF l(2) True] assms
    show ?thesis by (simp add: sinkVariant_def)
  next
    case False
    with e have "\<not> t < lastStepTime a" by simp
    from finishStep_normal [OF l(1) this] finishStep_normal [OF l(2) False] assms
    show ?thesis by (simp add: sinkVariant_def)
  qed
qed

lemma catchUp_sim:
  assumes run: "catchUp throws p t a = Some ra" and rel: "sinkVariant a b"
  shows "\<exists>rb. catchUp throws p t b = Some rb \<and> fst ra = fst rb \<and> sinkVariant (snd ra) (snd rb)"
proof -
  let ?I = "\<lambda>a'. \<exists>b'. sinkVariant a' b' \<and> catchUp throws p t b' = catchUp throws p t b"
  let ?Q = "\<lambda>ra. \<exists>rb. catchUp throws p t b = Some rb \<and> fst ra = fst rb
              \<and> sinkVariant (snd ra) (snd rb)"
  show ?thesis
  proof (rule catchUp_rule [OF run, where I = ?I and Q = ?Q])
    from rel show "?I a" by blast
  next
    fix a' assume inv: "?I a'" and loop: "lastStepTime a' + p < t"
      and ret: "fst (catchUpBody throws p t a') = Returned"
    from inv obtain b' where b': "sinkVariant a' b'"
      "catchUp throws p t b' = catchUp throws p t b" by blast
    from b'(1) loop have loop': "lastStepTime b' + p < t" by (simp add: sinkVariant_def)
    from catchUpBody_sim [OF b'(1), of throws p t] ret
    have sim: "fst (catchUpBody throws p t b') = Returned"
      "sinkVariant (snd (catchUpBody throws p t a')) (snd (catchUpBody throws p t b'))"
      by simp_all
    have "catchUp throws p t b' = catchUp throws p t (snd (catchUpBody throws p t b'))"
      using loop' sim(1) by (subst catchUp.simps) (simp add: Let_def)
    with b'(2) sim(2) show "?I (snd (catchUpBody throws p t a'))" by metis
  next
    fix a' assume inv: "?I a'" and loop: "lastStepTime a' + p < t"
      and thr: "fst (catchUpBody throws p t a') \<noteq> Returned"
    from inv obtain b' where b': "sinkVariant a' b'"
      "catchUp throws p t b' = catchUp throws p t b" by blast
    from b'(1) loop have loop': "lastStepTime b' + p < t" by (simp add: sinkVariant_def)
    from catchUpBody_sim [OF b'(1), of throws p t] thr
    have sim: "fst (catchUpBody throws p t b') \<noteq> Returned"
      "fst (catchUpBody throws p t a') = fst (catchUpBody throws p t b')"
      "sinkVariant (snd (catchUpBody throws p t a')) (snd (catchUpBody throws p t b'))"
      by simp_all
    have "catchUp throws p t b' = Some (catchUpBody throws p t b')"
      using loop' sim(1) by (subst catchUp.simps) (simp add: Let_def)
    with b'(2) sim(2,3) show "?Q (catchUpBody throws p t a')" by metis
  next
    fix a' assume inv: "?I a'" and stop: "\<not> lastStepTime a' + p < t"
    from inv obtain b' where b': "sinkVariant a' b'"
      "catchUp throws p t b' = catchUp throws p t b" by blast
    from b'(1) stop have "\<not> lastStepTime b' + p < t" by (simp add: sinkVariant_def)
    from catchUp_skip [OF this, of throws] b' show "?Q (Returned, a')" by auto
  qed
qed

lemma runClientStep_sim:
  assumes run: "runClientStep throws t dt a = Some ra" and rel: "sinkVariant a b"
  shows "\<exists>rb. runClientStep throws t dt b = Some rb \<and> fst ra = fst rb
           \<and> sinkVariant (snd ra) (snd rb)"
proof -
  from rel have p: "stepPeriod (options a) = stepPeriod (options b)"
    by (simp add: sinkVariant_def)
  let ?p = "stepPeriod (options b)"
  from resetBlock_sim [OF rel, of ?p t]
  have r0: "fst (resetBlock ?p t a) = fst (resetBlock ?p t b)"
    "sinkVariant (snd (resetBlock ?p t a)) (snd (resetBlock ?p t b))" by simp_all
  from rel obtain la where "traceSink a = Some la" by (auto simp: sinkVariant_def)
  from resetBlock_present [OF this, of ?p t] r0(1)
  have ret: "fst (resetBlock ?p t a) = Returned" "fst (resetBlock ?p t b) = Returned" by simp_all
  from run ret(1) p obtain r1 where r1: "catchUp throws ?p t (snd (resetBlock ?p t a)) = Some r1"
    and ra: "ra = seq r1 (finishStep throws ?p t)"
    by (auto simp: runClientStep_def Let_def catchUpAndFinish_def split: option.splits)
  from catchUp_sim [OF r1 r0(2)] obtain r1' where
    r1': "catchUp throws ?p t (snd (resetBlock ?p t b)) = Some r1'" "fst r1 = fst r1'"
      "sinkVariant (snd r1) (snd r1')" by blast
  have rb: "runClientStep throws t dt b = Some (seq r1' (finishStep throws ?p t))"
    using ret(2) r1'(1) by (simp add: runClientStep_def Let_def catchUpAndFinish_def)
  have "fst (seq r1 (finishStep throws ?p t)) = fst (seq r1' (finishStep throws ?p t))
      \<and> sinkVariant (snd (seq r1 (finishStep throws ?p t))) (snd (seq r1' (finishStep throws ?p t)))"
    using r1'(2,3) finishStep_sim [OF r1'(3), of throws ?p t] by (simp add: seq_def)
  with rb ra show ?thesis by simp
qed

lemma draw_sim:
  assumes rel: "sinkVariant a b"
  shows "map_option (\<lambda>r. (fst r, (snd r)\<lparr>traceSink := None\<rparr>)) (draw throws t dt a)
       = map_option (\<lambda>r. (fst r, (snd r)\<lparr>traceSink := None\<rparr>)) (draw throws t dt b)"
proof (cases "scheduler (options a) = ''render-schedule''")
  case False
  with rel sinkVariant_erase [OF rel] show ?thesis
    by (simp add: draw_def sinkVariant_def)
next
  case True
  with rel have mode: "scheduler (options b) = ''render-schedule''" by (simp add: sinkVariant_def)
  show ?thesis
  proof (cases "runClientStep throws t dt a")
    case None
    have "runClientStep throws t dt b = None"
    proof (cases "runClientStep throws t dt b")
      case (Some rb)
      from runClientStep_sim [OF Some sinkVariant_sym [OF rel]] None show ?thesis by simp
    qed simp
    with None True mode show ?thesis by (simp add: draw_def)
  next
    case (Some ra)
    from runClientStep_sim [OF Some rel] obtain rb where
      rb: "runClientStep throws t dt b = Some rb" "fst ra = fst rb"
        "sinkVariant (snd ra) (snd rb)" by blast
    with Some True mode sinkVariant_erase [OF rb(3)] show ?thesis by (simp add: draw_def)
  qed
qed

text \<open>The equations that evaluate a tick on a concrete state.\<close>

lemmas tick_eval = draw_def runClientStep_def catchUpAndFinish_def resetBlock_def resetDue_def
      TIME_RESET_THRESHOLD_def catchUp.simps catchUpBody_def finishStep_def seq_def step_def
      trace_call_def Let_def

section \<open>The mode gate\<close>

text \<open>
  Claim C7. Whenever the configured scheduler is anything other than
  \<^verbatim>\<open>'render-schedule'\<close>, \<^verbatim>\<open>draw\<close> returns at once for every \<open>t\<close>, \<open>dt\<close> and prior state: the
  step function is not invoked, \<^verbatim>\<open>lastStepTime\<close> and \<^verbatim>\<open>correction\<close> are unchanged, and a
  pending reset flag stays pending.
\<close>

theorem draw_other_mode_noop:
  assumes "scheduler (options s) \<noteq> ''render-schedule''"
  shows "draw throws t dt s = Some (Returned, s)"
  using assms by (simp add: draw_def)

theorem draw_other_mode_noop_witness:
  "scheduler (options \<lparr>doReset = True, options = \<lparr>scheduler = ''game-schedule'', stepPeriod = 16\<rparr>,
       lastStepTime = 0, correction = 3, stepCalls = [], traceSink = None\<rparr>) \<noteq> ''render-schedule''
   \<and> draw (\<lambda>c. True) 500 7
       \<lparr>doReset = True, options = \<lparr>scheduler = ''game-schedule'', stepPeriod = 16\<rparr>,
        lastStepTime = 0, correction = 3, stepCalls = [], traceSink = None\<rparr>
     = Some (Returned,
       \<lparr>doReset = True, options = \<lparr>scheduler = ''game-schedule'', stepPeriod = 16\<rparr>,
        lastStepTime = 0, correction = 3, stepCalls = [], traceSink = None\<rparr>)"
  using draw_other_mode_noop [of "\<lparr>doReset = True, options = \<lparr>scheduler = ''game-schedule'', stepPeriod = 16\<rparr>,
        lastStepTime = 0, correction = 3, stepCalls = [], traceSink = None\<rparr>" "\<lambda>c. True" 500 7]
  by simp

section \<open>The catch-up scenario\<close>

text \<open>
  Claim C3. From period 16, \<^verbatim>\<open>lastStepTime\<close> 0, \<^verbatim>\<open>correction\<close> 0 and no pending reset, the
  tick at \<open>t = 100\<close> does not reset, runs the catch-up loop six times, each call of the
  step function with \<open>dt = 16\<close>, and leaves the loop with \<^verbatim>\<open>lastStepTime\<close> 96; the normal
  branch then invokes the step function once more, with \<open>dt = 100 - 96 + 0 = 4\<close>.
\<close>

theorem catch_up_scenario:
  "resetBlock 16 100
     \<lparr>doReset = False, options = \<lparr>scheduler = ''render-schedule'', stepPeriod = 16\<rparr>,
      lastStepTime = 0, correction = 0, stepCalls = [], traceSink = Some []\<rparr>
   = (Returned,
     \<lparr>doReset = False, options = \<lparr>scheduler = ''render-schedule'', stepPeriod = 16\<rparr>,
      lastStepTime = 0, correction = 0, stepCalls = [], traceSink = Some []\<rparr>)
   \<and> catchUp (\<lambda>c. False) 16 100
     \<lparr>doReset = False, options = \<lparr>scheduler = ''render-schedule'', stepPeriod = 16\<rparr>,
      lastStepTime = 0, correction = 0, stepCalls = [], traceSink = Some []\<rparr>
   = Some (Returned,
     \<lparr>doReset = False, options = \<lparr>scheduler = ''render-schedule'', stepPeriod = 16\<rparr>,
      lastStepTime = 96, correction = 0,
      stepCalls = [StepCall 16 16 None, StepCall 32 16 None, StepCall 48 16 None,
                   StepCall 64 16 None, StepCall 80 16 None, StepCall 96 16 None],
      traceSink = Some [DrawingExtra 100 0 0 16, DrawingExtra 100 16 0 16,
                        DrawingExtra 100 32 0 16, DrawingExtra 100 48 0 16,
                        DrawingExtra 100 64 0 16, DrawingExtra 100 80 0 16]\<rparr>)
   \<and> finishStep (\<lambda>c. False) 16 100
     \<lparr>doReset = False, options = \<lparr>scheduler = ''render-schedule'', stepPeriod = 16\<rparr>,
      lastStepTime = 96, correction = 0,
      stepCalls = [StepCall 16 16 None, StepCall 32 16 None, StepCall 48 16 None,
                   StepCall 64 16 None, StepCall 80 16 None, StepCall 96 16 None],
      traceSink = Some [DrawingExtra 100 0 0 16, DrawingExtra 100 16 0 16,
                        DrawingExtra 100 32 0 16, DrawingExtra 100 48 0 16,
                        DrawingExtra 100 64 0 16, DrawingExtra 100 80 0 16]\<rparr>
   = (Returned,
     \<lparr>doReset = False, options = \<lparr>scheduler = ''render-schedule'', stepPeriod = 16\<rparr>,
      lastStepTime = 112, correction = 12,
      stepCalls = [StepCall 16 16 None, StepCall 32 16 None, StepCall 48 16 None,
                   StepCall 64 16 None, StepCall 80 16 None, StepCall 96 16 None,
                   StepCall 100 4 None],
      traceSink = Some [DrawingExtra 100 0 0 16, DrawingExtra 100 16 0 16,
                        DrawingExtra 100 32 0 16, DrawingExtra 100 48 0 16,
                        DrawingExtra 100 64 0 16, DrawingExtra 100 80 0 16,
                        Drawing 100 96 0 16, Done 100 112 12 16]\<rparr>)
   \<and> draw (\<lambda>c. False) 100 dtHint
     \<lparr>doReset = False, options = \<lparr>scheduler = ''render-schedule'', stepPeriod = 16\<rparr>,
      lastStepTime = 0, correction = 0, stepCalls = [], traceSink = Some []\<rparr>
   = Some (Returned,
     \<lparr>doReset = False, options = \<lparr>scheduler = ''render-schedule'', stepPeriod = 16\<rparr>,
      lastStepTime = 112, correction = 12,
      stepCalls = [StepCall 16 16 None, StepCall 32 16 None, StepCall 48 16 None,
                   StepCall 64 16 None, StepCall 80 16 None, StepCall 96 16 None,
                   StepCall 100 4 None],
      traceSink = Some [DrawingExtra 100 0 0 16, DrawingExtra 100 16 0 16,
                        DrawingExtra 100 32 0 16, DrawingExtra 100 48 0 16,
                        DrawingExtra 100 64 0 16, DrawingExtra 100 80 0 16,
                        Drawing 100 96 0 16, Done 100 112 12 16]\<rparr>)"
  by (simp add: tick_eval)

section \<open>Reset re-centring\<close>

text \<open>
  Claim C2. For every prior state, if the reset test of a tick at \<open>t\<close> succeeds, then the
  reset block sets \<^verbatim>\<open>lastStepTime\<close> to \<open>t - period/2\<close> and \<^verbatim>\<open>correction\<close> to \<open>period/2\<close> and
  clears the pending flag, and no step invocation has happened by then: the list of step
  calls is still the incoming one, and the rest of the tick (catch-up loop and final
  branch, where every step invocation lives) runs from that re-centred state. The flag
  is still clear when the tick ends.
\<close>

theorem reset_recentres_clock:
  assumes mode: "scheduler (options s) = ''render-schedule''" and due: "resetDue t s"
  shows "\<exists>out s1. resetBlock (stepPeriod (options s)) t s = (out, s1)
           \<and> lastStepTime s1 = t - stepPeriod (options s) / 2
           \<and> correction s1 = stepPeriod (options s) / 2
           \<and> \<not> doReset s1
           \<and> stepCalls s1 = stepCalls s
           \<and> draw throws t dt s =
               (if out = Returned then catchUpAndFinish throws (stepPeriod (options s)) t s1
                else Some (out, s1))
           \<and> (\<forall>r. draw throws t dt s = Some r \<longrightarrow> \<not> doReset (snd r))"
proof -
  let ?p = "stepPeriod (options s)"
  obtain out s1 where r0: "resetBlock ?p t s = (out, s1)" by (cases "resetBlock ?p t s")
  from resetBlock_clock [OF due, of ?p] resetBlock_frame [of ?p t s] r0
  have clock: "lastStepTime s1 = t - ?p / 2" "correction s1 = ?p / 2" "\<not> doReset s1"
    "stepCalls s1 = stepCalls s" by simp_all
  have unfold: "draw throws t dt s =
      (if out = Returned then catchUpAndFinish throws ?p t s1 else Some (out, s1))"
    by (simp add: draw_def mode runClientStep_def Let_def r0)
  have "\<not> doReset (snd r)" if run: "draw throws t dt s = Some r" for r
  proof (cases "out = Returned")
    case False
    with run unfold clock(3) show ?thesis by auto
  next
    case True
    with run unfold obtain r1 where r1: "catchUp throws ?p t s1 = Some r1"
      and r: "r = seq r1 (finishStep throws ?p t)"
      by (auto simp: catchUpAndFinish_def split: option.splits)
    from catchUp_frame [OF r1] clock(3) have "\<not> doReset (snd r1)" by simp
    with r finishStep_frame [of throws ?p t "snd r1"] show ?thesis
      by (simp add: seq_def)
  qed
  with r0 clock unfold show ?thesis by blast
qed

theorem reset_recentres_clock_witness:
  "scheduler (options \<lparr>doReset = True, options = \<lparr>scheduler = ''render-schedule'', stepPeriod = 10\<rparr>,
       lastStepTime = 990, correction = 3, stepCalls = [], traceSink = Some []\<rparr>) = ''render-schedule''
   \<and> resetDue 1000 \<lparr>doReset = True, options = \<lparr>scheduler = ''render-schedule'', stepPeriod = 10\<rparr>,
       lastStepTime = 990, correction = 3, stepCalls = [], traceSink = Some []\<rparr>
   \<and> resetBlock 10 1000 \<lparr>doReset = True, options = \<lparr>scheduler = ''render-schedule'', stepPeriod = 10\<rparr>,
       lastStepTime = 990, correction = 3, stepCalls = [], traceSink = Some []\<rparr>
     = (Returned, \<lparr>doReset = False, options = \<lparr>scheduler = ''render-schedule'', stepPeriod = 10\<rparr>,
       lastStepTime = 995, correction = 5, stepCalls = [], traceSink = Some [Resetting 995 10]\<rparr>)
   \<and> draw (\<lambda>c. False) 1000 0 \<lparr>doReset = True, options = \<lparr>scheduler = ''render-schedule'', stepPeriod = 10\<rparr>,
       lastStepTime = 990, correction = 3, stepCalls = [], traceSink = Some []\<rparr>
     = catchUpAndFinish (\<lambda>c. False) 10 1000
        \<lparr>doReset = False, options = \<lparr>scheduler = ''render-schedule'', stepPeriod = 10\<rparr>,
         lastStepTime = 995, correction = 5, stepCalls = [], traceSink = Some [Resetting 995 10]\<rparr>"
  using reset_recentres_clock [of "\<lparr>doReset = True, options = \<lparr>scheduler = ''render-schedule'', stepPeriod = 10\<rparr>,
       lastStepTime = 990, correction = 3, stepCalls = [], traceSink = Some []\<rparr>" 1000 "\<lambda>c. False" 0]
  by (simp add: resetDue_def resetBlock_def trace_call_def Let_def)

section \<open>Sign of the correction\<close>

text \<open>
  Claim C10. In render-schedule mode with a positive period, every tick ends, and every
  tick that returns leaves \<^verbatim>\<open>correction\<close> non-negative, whatever the prior state and
  timestamp: the reset block sets it to \<open>period/2\<close>, the early branch to
  \<open>lastStepTime - t\<close> with \<open>t < lastStepTime\<close>, and the normal branch to
  \<open>lastStepTime + period - t\<close>, where the loop has left \<open>t \<le> lastStepTime + period\<close>.
\<close>

theorem correction_nonneg_after_tick:
  assumes mode: "scheduler (options s) = ''render-schedule''"
    and pos: "0 < stepPeriod (options s)"
  shows "\<exists>out s'. draw throws t dt s = Some (out, s') \<and> (out = Returned \<longrightarrow> 0 \<le> correction s')"
proof -
  let ?p = "stepPeriod (options s)"
  from runClientStep_total [OF pos] obtain r where r: "runClientStep throws t dt s = Some r"
    by blast
  have "0 \<le> correction (snd r)" if ret: "fst r = Returned"
  proof (cases rule: runClientStep_cases [where s = s and throws = throws and t = t and dt = dt])
    case reset_threw
    with r ret show ?thesis by simp
  next
    case diverged
    with r show ?thesis by simp
  next
    case (loop_threw r1)
    with r ret show ?thesis by simp
  next
    case (finished r1)
    with r ret finishStep_returned_correction [OF catchUp_exit [OF finished(2,3)], of throws]
    show ?thesis by simp
  qed
  with r mode show ?thesis
    by (cases r) (simp add: draw_def)
qed

theorem correction_nonneg_after_tick_witness:
  "scheduler (options \<lparr>doReset = False, options = \<lparr>scheduler = ''render-schedule'', stepPeriod = 16\<rparr>,
       lastStepTime = 0, correction = -5, stepCalls = [], traceSink = Some []\<rparr>) = ''render-schedule''
   \<and> (0::real) < stepPeriod (options \<lparr>doReset = False, options = \<lparr>scheduler = ''render-schedule'', stepPeriod = 16\<rparr>,
       lastStepTime = 0, correction = -5, stepCalls = [], traceSink = Some []\<rparr>)
   \<and> draw (\<lambda>c. False) 1 0 \<lparr>doReset = False, options = \<lparr>scheduler = ''render-schedule'', stepPeriod = 16\<rparr>,
       lastStepTime = 0, correction = -5, stepCalls = [], traceSink = Some []\<rparr>
     = Some (Returned, \<lparr>doReset = False, options = \<lparr>scheduler = ''render-schedule'', stepPeriod = 16\<rparr>,
       lastStepTime = 16, correction = 15, stepCalls = [StepCall 1 (-4) None],
       traceSink = Some [Drawing 1 0 (-5) 16, Done 1 16 15 16]\<rparr>)
   \<and> (0::real) \<le> 15"
  using correction_nonneg_after_tick [of "\<lparr>doReset = False, options = \<lparr>scheduler = ''render-schedule'', stepPeriod = 16\<rparr>,
       lastStepTime = 0, correction = -5, stepCalls = [], traceSink = Some []\<rparr>" "\<lambda>c. False" 1 0]
  by (simp add: tick_eval)

section \<open>Sign of the elapsed time\<close>

text \<open>
  Claim C4. Only the early branch clamps \<open>dt\<close>; the catch-up and normal branches pass
  \<open>period + correction\<close> and \<open>t - lastStepTime + correction\<close> as they are, and these are
  non-negative because \<^verbatim>\<open>correction\<close> is. From a clock with a positive period and a
  non-negative \<^verbatim>\<open>correction\<close> (the constructed zero clock, and every clock a tick has
  written), every run of ticks and reset signals ends, in any order of timestamps, and
  every \<open>dt\<close> passed to the step function during it, from the catch-up loop, the early
  branch and the normal branch, is non-negative.
\<close>


theorem step_dt_nonneg:
  assumes "0 < stepPeriod (options s)" and "0 \<le> correction s"
  shows "\<exists>s' calls. host_loop throws es s = Some s' \<and> stepCalls s' = stepCalls s @ calls
           \<and> (\<forall>c\<in>set calls. 0 \<le> callDt c)"
  using host_loop_nonneg [OF assms, of throws es] by blast

theorem step_dt_nonneg_witness:
  "(0::real) < stepPeriod (options \<lparr>doReset = False, options = \<lparr>scheduler = ''render-schedule'', stepPeriod = 16\<rparr>,
       lastStepTime = 0, correction = 0, stepCalls = [], traceSink = Some []\<rparr>)
   \<and> (0::real) \<le> correction \<lparr>doReset = False, options = \<lparr>scheduler = ''render-schedule'', stepPeriod = 16\<rparr>,
       lastStepTime = 0, correction = 0, stepCalls = [], traceSink = Some []\<rparr>
   \<and> host_loop (\<lambda>c. False) [Tick 40 0, Tick 41 1, StepReset, Tick 50 9]
       \<lparr>doReset = False, options = \<lparr>scheduler = ''render-schedule'', stepPeriod = 16\<rparr>,
        lastStepTime = 0, correction = 0, stepCalls = [], traceSink = Some []\<rparr>
     = Some \<lparr>doReset = False, options = \<lparr>scheduler = ''render-schedule'', stepPeriod = 16\<rparr>,
        lastStepTime = 58, correction = 8,
        stepCalls = [] @ [StepCall 16 16 None, StepCall 32 16 None, StepCall 40 8 None,
                          StepCall 41 1 (Some True), StepCall 50 16 None],
        traceSink = Some [DrawingExtra 40 0 0 16, DrawingExtra 40 16 0 16, Drawing 40 32 0 16,
                          Done 40 48 8 16, DrawingNoStep 41 (-7) 8 16, Resetting 42 16,
                          Drawing 50 42 8 16, Done 50 58 8 16]\<rparr>
   \<and> list_all (\<lambda>c. 0 \<le> callDt c)
       [StepCall 16 16 None, StepCall 32 16 None, StepCall 40 8 None,
        StepCall 41 1 (Some True), StepCall 50 16 None]"
  using step_dt_nonneg [of "\<lparr>doReset = False, options = \<lparr>scheduler = ''render-schedule'', stepPeriod = 16\<rparr>,
       lastStepTime = 0, correction = 0, stepCalls = [], traceSink = Some []\<rparr>" "\<lambda>c. False"
       "[Tick 40 0, Tick 41 1, StepReset, Tick 50 9]"]
  by (simp add: onStepReset_def tick_eval)

section \<open>A tick inside the current period\<close>

text \<open>
  Claim C5, as stated, fails when the period exceeds the reset threshold: with period
  200, \<^verbatim>\<open>lastStepTime\<close> 0 and no pending reset, the tick at \<open>t = 150\<close> lies inside the
  period, yet \<open>150 > 0 + 100\<close> resets the clock first; \<^verbatim>\<open>lastStepTime\<close> ends at 250, not
  200, and the step function receives \<open>dt = 200\<close>, not 150.
\<close>

theorem in_period_tick_counterexample:
  "\<not> doReset \<lparr>doReset = False, options = \<lparr>scheduler = ''render-schedule'', stepPeriod = 200\<rparr>,
       lastStepTime = 0, correction = 0, stepCalls = [], traceSink = Some []\<rparr>
   \<and> (0::real) \<le> 150 \<and> (150::real) < 0 + 200
   \<and> draw (\<lambda>c. False) 150 0
       \<lparr>doReset = False, options = \<lparr>scheduler = ''render-schedule'', stepPeriod = 200\<rparr>,
        lastStepTime = 0, correction = 0, stepCalls = [], traceSink = Some []\<rparr>
     = Some (Returned,
       \<lparr>doReset = False, options = \<lparr>scheduler = ''render-schedule'', stepPeriod = 200\<rparr>,
        lastStepTime = 250, correction = 100, stepCalls = [StepCall 150 200 None],
        traceSink = Some [Resetting 50 200, Drawing 150 50 100 200, Done 150 250 100 200]\<rparr>)"
  by (simp add: tick_eval)

text \<open>
  Claim C5, amended. For every \<open>t\<close> with \<open>lastStepTime \<le> t < lastStepTime + period\<close> and
  \<open>t \<le> lastStepTime + TIME_RESET_THRESHOLD\<close>, no pending reset, the trace object present
  and a step call that returns, the tick advances \<^verbatim>\<open>lastStepTime\<close> by exactly the period,
  leaves \<^verbatim>\<open>correction\<close> equal to the new \<^verbatim>\<open>lastStepTime\<close> minus \<open>t\<close>, and invokes the step
  function exactly once, through the normal branch, with
  \<open>dt = t - lastStepTime + correction\<close> of the prior state.
\<close>

theorem in_period_tick_single_step:
  assumes mode: "scheduler (options s) = ''render-schedule''"
    and idle: "\<not> doReset s"
    and lo: "lastStepTime s \<le> t"
    and hi: "t < lastStepTime s + stepPeriod (options s)"
    and near: "t \<le> lastStepTime s + TIME_RESET_THRESHOLD"
    and sink: "traceSink s = Some l"
    and ok: "\<not> throws (StepCall t (t - lastStepTime s + correction s) None)"
  shows "draw throws t dt s =
     Some (Returned,
       s\<lparr>lastStepTime := lastStepTime s + stepPeriod (options s),
         correction := lastStepTime s + stepPeriod (options s) - t,
         stepCalls := stepCalls s @ [StepCall t (t - lastStepTime s + correction s) None],
         traceSink := Some (l @
           [Drawing t (lastStepTime s) (correction s) (stepPeriod (options s)),
            Done t (lastStepTime s + stepPeriod (options s))
              (lastStepTime s + stepPeriod (options s) - t) (stepPeriod (options s))])\<rparr>)"
proof -
  from idle near have nd: "\<not> resetDue t s" by (simp add: resetDue_def)
  from hi have nl: "\<not> lastStepTime s + stepPeriod (options s) < t" by simp
  from lo have ne: "\<not> t < lastStepTime s" by simp
  show ?thesis
    using ok
    by (simp add: draw_def mode runClientStep_def Let_def resetBlock_not_due [OF nd]
        catchUpAndFinish_def catchUp_skip [OF nl] seq_def finishStep_normal [OF sink ne])
qed

theorem in_period_tick_single_step_witness:
  "scheduler (options \<lparr>doReset = False, options = \<lparr>scheduler = ''render-schedule'', stepPeriod = 16\<rparr>,
       lastStepTime = 32, correction = 3, stepCalls = [], traceSink = Some []\<rparr>) = ''render-schedule''
   \<and> draw (\<lambda>c. False) 40 0
       \<lparr>doReset = False, options = \<lparr>scheduler = ''render-schedule'', stepPeriod = 16\<rparr>,
        lastStepTime = 32, correction = 3, stepCalls = [], traceSink = Some []\<rparr>
     = Some (Returned,
       \<lparr>doReset = False, options = \<lparr>scheduler = ''render-schedule'', stepPeriod = 16\<rparr>,
        lastStepTime = 48, correction = 8, stepCalls = [StepCall 40 11 None],
        traceSink = Some [Drawing 40 32 3 16, Done 40 48 8 16]\<rparr>)"
  using in_period_tick_single_step [of "\<lparr>doReset = False, options = \<lparr>scheduler = ''render-schedule'', stepPeriod = 16\<rparr>,
        lastStepTime = 32, correction = 3, stepCalls = [], traceSink = Some []\<rparr>" 40 "[]" "\<lambda>c. False" 0]
  by (simp add: TIME_RESET_THRESHOLD_def)

section \<open>The reset test\<close>

text \<open>
  Claim C1, as stated, fails: the test on line 70 compares \<open>t\<close> with
  \<open>lastStepTime + TIME_RESET_THRESHOLD\<close>, without the period. With period 16,
  \<^verbatim>\<open>lastStepTime\<close> 0 and no pending reset, the tick at \<open>t = 110\<close> lies in the range the
  claim excludes (\<open>100 < 110 \<le> 116\<close>), and it resets: the clock is re-centred at 102 and
  a single step with \<open>dt = 16\<close> follows.
\<close>

theorem reset_test_counterexample:
  "\<not> doReset \<lparr>doReset = False, options = \<lparr>scheduler = ''render-schedule'', stepPeriod = 16\<rparr>,
       lastStepTime = 0, correction = 0, stepCalls = [], traceSink = Some []\<rparr>
   \<and> (0::real) + TIME_RESET_THRESHOLD < 110
   \<and> (110::real) \<le> 0 + 16 + TIME_RESET_THRESHOLD
   \<and> draw (\<lambda>c. False) 110 0
       \<lparr>doReset = False, options = \<lparr>scheduler = ''render-schedule'', stepPeriod = 16\<rparr>,
        lastStepTime = 0, correction = 0, stepCalls = [], traceSink = Some []\<rparr>
     = Some (Returned,
       \<lparr>doReset = False, options = \<lparr>scheduler = ''render-schedule'', stepPeriod = 16\<rparr>,
        lastStepTime = 118, correction = 8, stepCalls = [StepCall 110 16 None],
        traceSink = Some [Resetting 102 16, Drawing 110 102 8 16, Done 110 118 8 16]\<rparr>)"
  by (simp add: tick_eval)

text \<open>
  Claim C1, amended. A tick at \<open>t\<close> resets exactly when the reset flag is pending or \<open>t\<close>
  exceeds \<open>lastStepTime + TIME_RESET_THRESHOLD\<close>, the threshold being 100; the period
  plays no part in the test. When the test holds, the flag is cleared and the clock set
  to \<open>lastStepTime = t - period/2\<close>, \<open>correction = period/2\<close>, and the catch-up loop and
  final branch run from that clock (or the tick throws there, the trace object being
  absent); when it does not hold, they run from the incoming state, untouched. This
  holds for every period, state and step function.
\<close>

theorem reset_test:
  "draw throws t dt s =
     (if scheduler (options s) = ''render-schedule'' then
        if doReset s \<or> lastStepTime s + TIME_RESET_THRESHOLD < t then
          (case traceSink s of
             None \<Rightarrow>
               Some (Threw TypeError,
                 s\<lparr>doReset := False,
                   lastStepTime := t - stepPeriod (options s) / 2,
                   correction := stepPeriod (options s) / 2\<rparr>)
           | Some l \<Rightarrow>
               catchUpAndFinish throws (stepPeriod (options s)) t
                 (s\<lparr>doReset := False,
                    lastStepTime := t - stepPeriod (options s) / 2,
                    correction := stepPeriod (options s) / 2,
                    traceSink := Some (l @ [Resetting (t - stepPeriod (options s) / 2)
                                                      (stepPeriod (options s))])\<rparr>))
        else catchUpAndFinish throws (stepPeriod (options s)) t s
      else Some (Returned, s))"
proof (cases "resetDue t s")
  case True
  then show ?thesis
    by (cases "traceSink s")
      (simp_all add: draw_def runClientStep_def Let_def resetDue_def [symmetric]
        resetBlock_due_absent resetBlock_due_present)
next
  case False
  then show ?thesis
    by (simp add: draw_def runClientStep_def Let_def resetDue_def [symmetric] resetBlock_not_due)
qed

theorem reset_test_witness:
  "draw (\<lambda>c. False) 20 0
       \<lparr>doReset = True, options = \<lparr>scheduler = ''render-schedule'', stepPeriod = 16\<rparr>,
        lastStepTime = 10, correction = 0, stepCalls = [], traceSink = Some []\<rparr>
     = catchUpAndFinish (\<lambda>c. False) 16 20
       \<lparr>doReset = False, options = \<lparr>scheduler = ''render-schedule'', stepPeriod = 16\<rparr>,
        lastStepTime = 12, correction = 8, stepCalls = [], traceSink = Some [Resetting 12 16]\<rparr>
   \<and> draw (\<lambda>c. False) 20 0
       \<lparr>doReset = False, options = \<lparr>scheduler = ''render-schedule'', stepPeriod = 16\<rparr>,
        lastStepTime = 10, correction = 0, stepCalls = [], traceSink = Some []\<rparr>
     = catchUpAndFinish (\<lambda>c. False) 16 20
       \<lparr>doReset = False, options = \<lparr>scheduler = ''render-schedule'', stepPeriod = 16\<rparr>,
        lastStepTime = 10, correction = 0, stepCalls = [], traceSink = Some []\<rparr>"
  using reset_test [where throws = "\<lambda>c. False" and t = 20 and dt = 0
      and s = "\<lparr>doReset = True, options = \<lparr>scheduler = ''render-schedule'', stepPeriod = 16\<rparr>,
        lastStepTime = 10, correction = 0, stepCalls = [], traceSink = Some []\<rparr>"]
    reset_test [where throws = "\<lambda>c. False" and t = 20 and dt = 0
      and s = "\<lparr>doReset = False, options = \<lparr>scheduler = ''render-schedule'', stepPeriod = 16\<rparr>,
        lastStepTime = 10, correction = 0, stepCalls = [], traceSink = Some []\<rparr>"]
  by (simp add: TIME_RESET_THRESHOLD_def)

section \<open>The branches of one tick\<close>

text \<open>
  Claim C6, as stated, fails: the catch-up loop falls through to the final branch. With
  period 10 and \<^verbatim>\<open>lastStepTime\<close> 0, the tick at \<open>t = 25\<close> runs two catch-up steps and then
  the normal step, all in the one call.
\<close>

theorem tick_branches_counterexample:
  "draw (\<lambda>c. False) 25 0
       \<lparr>doReset = False, options = \<lparr>scheduler = ''render-schedule'', stepPeriod = 10\<rparr>,
        lastStepTime = 0, correction = 0, stepCalls = [], traceSink = Some []\<rparr>
     = Some (Returned,
       \<lparr>doReset = False, options = \<lparr>scheduler = ''render-schedule'', stepPeriod = 10\<rparr>,
        lastStepTime = 30, correction = 5,
        stepCalls = [StepCall 10 10 None, StepCall 20 10 None, StepCall 25 5 None],
        traceSink = Some [DrawingExtra 25 0 0 10, DrawingExtra 25 10 0 10,
                          Drawing 25 20 0 10, Done 25 30 5 10]\<rparr>)"
  by (simp add: tick_eval)

text \<open>
  Claim C6, amended. The step calls of a tick that ends are a catch-up burst, possibly
  empty, followed by at most one final call: the early no-step call \<open>step(t, dt, true)\<close>
  or the normal call \<open>step(t, dt)\<close>, never both, and exactly one of them when the tick
  returns in render-schedule mode. The calls of the burst carry no flag and a time
  before \<open>t\<close>, so they are told apart from the final call, whose time is \<open>t\<close>. A burst and
  the normal step do occur in the same tick.
\<close>

theorem tick_branches:
  assumes run: "draw throws t dt s = Some (out, s')"
  shows "\<exists>burst fin. stepCalls s' = stepCalls s @ burst @ fin
           \<and> (\<forall>c\<in>set burst. callTime c < t \<and> callFlag c = None)
           \<and> (fin = [] \<or> (\<exists>d. fin = [StepCall t d (Some True)])
                \<or> (\<exists>d. fin = [StepCall t d None]))
           \<and> (scheduler (options s) = ''render-schedule'' \<and> out = Returned \<longrightarrow> fin \<noteq> [])"
proof (cases "scheduler (options s) = ''render-schedule''")
  case False
  with run have "s' = s" by (simp add: draw_def)
  with False show ?thesis by simp
next
  case True
  let ?p = "stepPeriod (options s)"
  let ?r0 = "resetBlock ?p t s"
  from run True have r: "runClientStep throws t dt s = Some (out, s')" by (simp add: draw_def)
  have c0: "stepCalls (snd ?r0) = stepCalls s"
    using resetBlock_frame [of ?p t s] by simp
  show ?thesis
  proof (cases rule: runClientStep_cases [where s = s and throws = throws and t = t and dt = dt])
    case reset_threw
    with r c0 show ?thesis by auto
  next
    case diverged
    with r show ?thesis by simp
  next
    case (loop_threw r1)
    from catchUp_burst [OF loop_threw(2)] obtain burst where
      b: "stepCalls (snd r1) = stepCalls (snd ?r0) @ burst"
        "\<forall>c\<in>set burst. callTime c < t \<and> callFlag c = None" by blast
    from loop_threw(4) r have "r1 = (out, s')" by simp
    with b c0 loop_threw(3) show ?thesis
      by (intro exI [of _ burst] exI [of _ "[]"]) auto
  next
    case (finished r1)
    from catchUp_burst [OF finished(2)] obtain burst where
      b: "stepCalls (snd r1) = stepCalls (snd ?r0) @ burst"
        "\<forall>c\<in>set burst. callTime c < t \<and> callFlag c = None" by blast
    let ?r2 = "finishStep throws ?p t (snd r1)"
    from finishStep_final [of throws ?p t "snd r1"] obtain fin where
      f: "stepCalls (snd ?r2) = stepCalls (snd r1) @ fin"
        "fin = [] \<or> (\<exists>d. fin = [StepCall t d (Some True)]) \<or> (\<exists>d. fin = [StepCall t d None])"
        "fst ?r2 = Returned \<longrightarrow> fin \<noteq> []" by blast
    from finished(4) r have e: "?r2 = (out, s')" by simp
    then have "fst ?r2 = out" "snd ?r2 = s'" by simp_all
    with b c0 f show ?thesis
      by (intro exI [of _ burst] exI [of _ fin]) simp
  qed
qed

theorem tick_branches_witness:
  "draw (\<lambda>c. False) 27 0
       \<lparr>doReset = False, options = \<lparr>scheduler = ''render-schedule'', stepPeriod = 10\<rparr>,
        lastStepTime = 30, correction = 2, stepCalls = [], traceSink = Some []\<rparr>
     = Some (Returned,
       \<lparr>doReset = False, options = \<lparr>scheduler = ''render-schedule'', stepPeriod = 10\<rparr>,
        lastStepTime = 30, correction = 3, stepCalls = [StepCall 27 0 (Some True)],
        traceSink = Some [DrawingNoStep 27 (-3) 2 10]\<rparr>)
   \<and> (\<exists>burst fin. [StepCall 27 0 (Some True)] = [] @ burst @ fin
         \<and> list_all (\<lambda>c. callTime c < 27 \<and> callFlag c = None) burst
         \<and> (\<exists>d. fin = [StepCall 27 d (Some True)]))"
  using tick_branches [where throws = "\<lambda>c. False" and t = 27 and dt = 0
      and s = "\<lparr>doReset = False, options = \<lparr>scheduler = ''render-schedule'', stepPeriod = 10\<rparr>,
        lastStepTime = 30, correction = 2, stepCalls = [], traceSink = Some []\<rparr>"
      and out = Returned
      and s' = "\<lparr>doReset = False, options = \<lparr>scheduler = ''render-schedule'', stepPeriod = 10\<rparr>,
        lastStepTime = 30, correction = 3, stepCalls = [StepCall 27 0 (Some True)],
        traceSink = Some [DrawingNoStep 27 (-3) 2 10]\<rparr>"]
  by (auto simp add: tick_eval list_all_iff)

section \<open>Failures\<close>

text \<open>
  Claim C8, as stated, fails: no statement of \<^verbatim>\<open>draw\<close> or \<^verbatim>\<open>runClientStep\<close> catches
  anything. When the step function throws in the normal branch of the tick at \<open>t = 5\<close>,
  the exception leaves \<^verbatim>\<open>draw\<close>, and the trace holds the DRAWING message only, no report
  of the failure.
\<close>

theorem tick_outcome_counterexample:
  "draw (\<lambda>c. True) 5 0
       \<lparr>doReset = False, options = \<lparr>scheduler = ''render-schedule'', stepPeriod = 16\<rparr>,
        lastStepTime = 0, correction = 0, stepCalls = [], traceSink = Some []\<rparr>
     = Some (Threw StepFailure,
       \<lparr>doReset = False, options = \<lparr>scheduler = ''render-schedule'', stepPeriod = 16\<rparr>,
        lastStepTime = 16, correction = 11, stepCalls = [StepCall 5 5 None],
        traceSink = Some [Drawing 5 0 0 16]\<rparr>)"
  by (simp add: tick_eval)

text \<open>
  Claim C8, amended. \<^verbatim>\<open>draw\<close> yields no value beyond its effects and handles no failure.
  A tick in render-schedule mode that ends returns normally exactly when the trace object
  is present and no step invocation of the tick throws. Otherwise the failure goes to
  the caller, a TypeError when the trace object is absent, else the failure of the step
  function, and nothing about it reaches the trace: an absent trace object stays absent,
  and a present one has received one message for each step call made, and one more if
  the tick reset, none for the failure.
\<close>

theorem tick_outcome:
  assumes mode: "scheduler (options s) = ''render-schedule''"
    and run: "draw throws t dt s = Some (out, s')"
  shows "\<exists>calls. stepCalls s' = stepCalls s @ calls
           \<and> out = (if traceSink s = None then Threw TypeError
                     else if \<exists>c\<in>set calls. throws c then Threw StepFailure
                     else Returned)
           \<and> (case traceSink s of
                 None \<Rightarrow> traceSink s' = None
               | Some l \<Rightarrow>
                   \<exists>new. traceSink s' = Some (l @ new)
                     \<and> (out \<noteq> Returned \<longrightarrow>
                          length new =
                            (if doReset s \<or> lastStepTime s + TIME_RESET_THRESHOLD < t
                             then 1 else 0) + length calls))"
proof -
  from run mode have r: "runClientStep throws t dt s = Some (out, s')" by (simp add: draw_def)
  show ?thesis
  proof (cases "traceSink s")
    case None
    from runClientStep_absent_sink [OF None r] None show ?thesis by simp
  next
    case (Some l)
    from runClientStep_tally [OF r Some] obtain new calls where
      "traceSink s' = Some (l @ new)" "stepCalls s' = stepCalls s @ calls"
      "out = (if \<exists>c\<in>set calls. throws c then Threw StepFailure else Returned)"
      "out \<noteq> Returned \<longrightarrow> length new = (if resetDue t s then 1 else 0) + length calls"
      by auto
    with Some show ?thesis
      by (intro exI [of _ calls]) (simp add: resetDue_def)
  qed
qed

theorem tick_outcome_witness:
  "scheduler (options \<lparr>doReset = False, options = \<lparr>scheduler = ''render-schedule'', stepPeriod = 16\<rparr>,
       lastStepTime = 0, correction = 0, stepCalls = [], traceSink = Some []\<rparr>) = ''render-schedule''
   \<and> draw (\<lambda>c. callTime c = 32) 40 0
       \<lparr>doReset = False, options = \<lparr>scheduler = ''render-schedule'', stepPeriod = 16\<rparr>,
        lastStepTime = 0, correction = 0, stepCalls = [], traceSink = Some []\<rparr>
     = Some (Threw StepFailure,
       \<lparr>doReset = False, options = \<lparr>scheduler = ''render-schedule'', stepPeriod = 16\<rparr>,
        lastStepTime = 16, correction = 0,
        stepCalls = [StepCall 16 16 None, StepCall 32 16 None],
        traceSink = Some [DrawingExtra 40 0 0 16, DrawingExtra 40 16 0 16]\<rparr>)
   \<and> (\<exists>calls. [StepCall 16 16 None, StepCall 32 16 None] = [] @ calls
         \<and> (\<exists>c\<in>set calls. callTime c = 32)
         \<and> (\<exists>new. [DrawingExtra 40 0 0 16, DrawingExtra 40 16 0 16] = [] @ new
               \<and> length new = 0 + length calls))"
  using tick_outcome [where throws = "\<lambda>c. callTime c = 32" and t = 40 and dt = 0
      and s = "\<lparr>doReset = False, options = \<lparr>scheduler = ''render-schedule'', stepPeriod = 16\<rparr>,
        lastStepTime = 0, correction = 0, stepCalls = [], traceSink = Some []\<rparr>"
      and out = "Threw StepFailure"
      and s' = "\<lparr>doReset = False, options = \<lparr>scheduler = ''render-schedule'', stepPeriod = 16\<rparr>,
        lastStepTime = 16, correction = 0,
        stepCalls = [StepCall 16 16 None, StepCall 32 16 None],
        traceSink = Some [DrawingExtra 40 0 0 16, DrawingExtra 40 16 0 16]\<rparr>"]
  by (simp add: tick_eval)

section \<open>The trace object\<close>

text \<open>
  Claim C9, as stated, fails: every call of \<^verbatim>\<open>trace.trace\<close> is unguarded. With the trace
  object absent, the tick at \<open>t = 5\<close> throws a TypeError before it invokes the step
  function, whereas with the object present the same tick invokes \<open>step(5, 5)\<close> and
  advances the clock.
\<close>

theorem sink_observational_counterexample:
  "draw (\<lambda>c. False) 5 0
       \<lparr>doReset = False, options = \<lparr>scheduler = ''render-schedule'', stepPeriod = 16\<rparr>,
        lastStepTime = 0, correction = 0, stepCalls = [], traceSink = None\<rparr>
     = Some (Threw TypeError,
       \<lparr>doReset = False, options = \<lparr>scheduler = ''render-schedule'', stepPeriod = 16\<rparr>,
        lastStepTime = 0, correction = 0, stepCalls = [], traceSink = None\<rparr>)
   \<and> draw (\<lambda>c. False) 5 0
       \<lparr>doReset = False, options = \<lparr>scheduler = ''render-schedule'', stepPeriod = 16\<rparr>,
        lastStepTime = 0, correction = 0, stepCalls = [], traceSink = Some []\<rparr>
     = Some (Returned,
       \<lparr>doReset = False, options = \<lparr>scheduler = ''render-schedule'', stepPeriod = 16\<rparr>,
        lastStepTime = 16, correction = 11, stepCalls = [StepCall 5 5 None],
        traceSink = Some [Drawing 5 0 0 16, Done 5 16 11 16]\<rparr>)"
  by (simp add: tick_eval)

text \<open>
  Claim C9, amended. The trace object is purely observational but required. For every
  state and tick, two runs that differ only in the messages a present trace object
  already holds end alike (or both fail to end), with the same outcome, the same step
  invocations and the same final clock state. With the object absent, a tick in
  render-schedule mode throws a TypeError without having invoked the step function.
\<close>

theorem sink_observational:
  "map_option (\<lambda>r. (fst r, (snd r)\<lparr>traceSink := None\<rparr>))
       (draw throws t dt (s\<lparr>traceSink := Some la\<rparr>))
     = map_option (\<lambda>r. (fst r, (snd r)\<lparr>traceSink := None\<rparr>))
       (draw throws t dt (s\<lparr>traceSink := Some lb\<rparr>))
   \<and> (scheduler (options s) = ''render-schedule'' \<longrightarrow>
        (\<exists>s'. draw throws t dt (s\<lparr>traceSink := None\<rparr>) = Some (Threw TypeError, s')
              \<and> stepCalls s' = stepCalls s))"
proof
  have "sinkVariant (s\<lparr>traceSink := Some la\<rparr>) (s\<lparr>traceSink := Some lb\<rparr>)"
    by (simp add: sinkVariant_def)
  from draw_sim [OF this]
  show "map_option (\<lambda>r. (fst r, (snd r)\<lparr>traceSink := None\<rparr>))
       (draw throws t dt (s\<lparr>traceSink := Some la\<rparr>))
     = map_option (\<lambda>r. (fst r, (snd r)\<lparr>traceSink := None\<rparr>))
       (draw throws t dt (s\<lparr>traceSink := Some lb\<rparr>))" .
next
  show "scheduler (options s) = ''render-schedule'' \<longrightarrow>
        (\<exists>s'. draw throws t dt (s\<lparr>traceSink := None\<rparr>) = Some (Threw TypeError, s')
              \<and> stepCalls s' = stepCalls s)"
    using runClientStep_absent [of "s\<lparr>traceSink := None\<rparr>" throws t dt]
    by (simp add: draw_def)
qed

theorem sink_observational_witness:
  "scheduler (options \<lparr>doReset = True, options = \<lparr>scheduler = ''render-schedule'', stepPeriod = 10\<rparr>,
       lastStepTime = 0, correction = 0, stepCalls = [], traceSink = None\<rparr>) = ''render-schedule''
   \<and> draw (\<lambda>c. False) 7 0
       (\<lparr>doReset = True, options = \<lparr>scheduler = ''render-schedule'', stepPeriod = 10\<rparr>,
        lastStepTime = 0, correction = 0, stepCalls = [], traceSink = None\<rparr>\<lparr>traceSink := None\<rparr>)
     = Some (Threw TypeError,
       \<lparr>doReset = False, options = \<lparr>scheduler = ''render-schedule'', stepPeriod = 10\<rparr>,
        lastStepTime = 2, correction = 5, stepCalls = [], traceSink = None\<rparr>)
   \<and> map_option (\<lambda>r. (fst r, (snd r)\<lparr>traceSink := None\<rparr>))
       (draw (\<lambda>c. False) 7 0
         (\<lparr>doReset = True, options = \<lparr>scheduler = ''render-schedule'', stepPeriod = 10\<rparr>,
          lastStepTime = 0, correction = 0, stepCalls = [], traceSink = None\<rparr>\<lparr>traceSink := Some []\<rparr>))
     = map_option (\<lambda>r. (fst r, (snd r)\<lparr>traceSink := None\<rparr>))
       (draw (\<lambda>c. False) 7 0
         (\<lparr>doReset = True, options = \<lparr>scheduler = ''render-schedule'', stepPeriod = 10\<rparr>,
          lastStepTime = 0, correction = 0, stepCalls = [], traceSink = None\<rparr>\<lparr>traceSink := Some [Done 0 0 0 0]\<rparr>))"
  using sink_observational [where throws = "\<lambda>c. False" and t = 7 and dt = 0
       and s = "\<lparr>doReset = True, options = \<lparr>scheduler = ''render-schedule'', stepPeriod = 10\<rparr>,
        lastStepTime = 0, correction = 0, stepCalls = [], traceSink = None\<rparr>"
       and la = "[]" and lb = "[Done 0 0 0 0]"]
  by (simp add: tick_eval)

end
